theory Spec2Isabelle
  imports Main "HOL-Library.Word"
begin

section \<open>JavaScript values used by the program\<close>

subsection \<open>Strings\<close>

text \<open>
  A JavaScript string is a sequence of UTF-16 code units: \<open>length\<close>, indexing and a
  regular expression without the \<open>u\<close> flag all count code units.
\<close>

type_synonym code_unit = "16 word"
type_synonym js_string = "code_unit list"

definition lit :: "string \<Rightarrow> js_string" where
  \<comment> \<open>an ASCII string literal of the source\<close>
  "lit s = map of_char s"

definition truthy :: "js_string option \<Rightarrow> bool" where
  \<comment> \<open>\<open>if (s)\<close> for \<open>s?: string\<close>: \<open>undefined\<close> and the empty string are falsy\<close>
  "truthy s = (case s of None \<Rightarrow> False | Some t \<Rightarrow> t \<noteq> [])"

definition is_digit :: "code_unit \<Rightarrow> bool" where
  \<comment> \<open>the class \<open>\d\<close>\<close>
  "is_digit c = (0x30 \<le> c \<and> c \<le> 0x39)"

definition is_line_terminator :: "code_unit \<Rightarrow> bool" where
  \<comment> \<open>LF, CR, LINE SEPARATOR, PARAGRAPH SEPARATOR: what \<open>.\<close> does not match\<close>
  "is_line_terminator c = (c = 0x0A \<or> c = 0x0D \<or> c = 0x2028 \<or> c = 0x2029)"

subsection \<open>Numbers\<close>

text \<open>
  A JavaScript number is an IEEE 754 double. The program only holds integers, the
  infinities and \<open>NaN\<close>. \<open>Num i\<close> stands for the double whose value is the integer \<open>i\<close>.
\<close>

datatype number = Num int | Infinity | NegInfinity | NaN

fun excess_bits :: "nat \<Rightarrow> nat" where
  \<comment> \<open>how many bits a natural number has beyond the 53 of a double's significand\<close>
  "excess_bits n = (if n < 2 ^ 53 then 0 else Suc (excess_bits (n div 2)))"

declare excess_bits.simps [simp del]

definition nearest_double :: "nat \<Rightarrow> number" where
  \<comment> \<open>round to nearest, ties to even; overflow gives \<open>Infinity\<close>\<close>
  "nearest_double n =
     (let e = excess_bits n;
          q = n div 2 ^ e;
          r = n mod 2 ^ e;
          q' = (if 2 ^ e < 2 * r \<or> (2 * r = 2 ^ e \<and> odd q) then q + 1 else q);
          v = q' * 2 ^ e
      in if 2 ^ 1024 \<le> v then Infinity else Num (int v))"

definition to_double :: "int \<Rightarrow> number" where
  "to_double i =
     (if 0 \<le> i then nearest_double (nat i)
      else (case nearest_double (nat (- i)) of
              Num m \<Rightarrow> Num (- m)
            | _ \<Rightarrow> NegInfinity))"

definition js_add :: "number \<Rightarrow> int \<Rightarrow> number" where
  \<comment> \<open>\<open>x + k\<close> for an integer constant \<open>k\<close>\<close>
  "js_add x k =
     (case x of
        Num i \<Rightarrow> to_double (i + k)
      | Infinity \<Rightarrow> Infinity
      | NegInfinity \<Rightarrow> NegInfinity
      | NaN \<Rightarrow> NaN)"

definition digit_value :: "code_unit \<Rightarrow> nat" where
  "digit_value c = unat c - 48"

definition decimal_value :: "js_string \<Rightarrow> nat" where
  "decimal_value ds = foldl (\<lambda>acc c. 10 * acc + digit_value c) 0 ds"

definition Number :: "js_string option \<Rightarrow> number" where
  \<comment> \<open>\<open>Number(s)\<close> for \<open>s\<close> captured by \<open>\d+\<close> (its decimal value, rounded to the nearest
      double as V8 does), or for \<open>undefined\<close>\<close>
  "Number s = (case s of None \<Rightarrow> NaN | Some ds \<Rightarrow> nearest_double (decimal_value ds))"

definition string_length :: "js_string \<Rightarrow> number" where
  \<comment> \<open>\<open>string.length\<close>\<close>
  "string_length s = Num (int (length s))"

subsection \<open>\<open>toString(16)\<close> and \<open>codePointAt(0)\<close>\<close>

definition hex_digit :: "nat \<Rightarrow> code_unit" where
  "hex_digit d = (if d < 10 then of_nat (48 + d) else of_nat (97 + (d - 10)))"

fun toString16 :: "nat \<Rightarrow> js_string" where
  "toString16 n = (if n < 16 then [hex_digit n] else toString16 (n div 16) @ [hex_digit (n mod 16)])"

declare toString16.simps [simp del]

definition is_high_surrogate :: "code_unit \<Rightarrow> bool" where
  "is_high_surrogate c = (0xD800 \<le> c \<and> c \<le> 0xDBFF)"

definition is_low_surrogate :: "code_unit \<Rightarrow> bool" where
  "is_low_surrogate c = (0xDC00 \<le> c \<and> c \<le> 0xDFFF)"

fun codePointAt0 :: "js_string \<Rightarrow> nat option" where
  "codePointAt0 [] = None"
| "codePointAt0 [c] = Some (unat c)"
| "codePointAt0 (c # d # _) =
     (if is_high_surrogate c \<and> is_low_surrogate d
      then Some (0x10000 + (unat c - 0xD800) * 0x400 + (unat d - 0xDC00))
      else Some (unat c))"

section \<open>Regular expressions\<close>

text \<open>
  A matcher maps a state (the input before and after the current position, and the
  captures so far) to the states it can end in, in the order in which the backtracking
  engine tries them. \<open>exec\<close> tries each start position from the left and takes the first
  result of the first position that has one.
\<close>

record match_state =
  consumed :: js_string
  remaining :: js_string
  captures :: "string \<rightharpoonup> js_string"

type_synonym matcher = "match_state \<Rightarrow> match_state list"

definition advance :: "nat \<Rightarrow> match_state \<Rightarrow> match_state" where
  "advance n st =
     st\<lparr>consumed := consumed st @ take n (remaining st), remaining := drop n (remaining st)\<rparr>"

definition m_lit :: "js_string \<Rightarrow> matcher" where
  \<comment> \<open>literal characters\<close>
  "m_lit l st = (if take (length l) (remaining st) = l then [advance (length l) st] else [])"

definition m_char :: "(code_unit \<Rightarrow> bool) \<Rightarrow> matcher" where
  \<comment> \<open>one code unit of a class\<close>
  "m_char P st =
     (case remaining st of [] \<Rightarrow> [] | c # _ \<Rightarrow> if P c then [advance 1 st] else [])"

definition m_plus :: "(code_unit \<Rightarrow> bool) \<Rightarrow> matcher" where
  \<comment> \<open>greedy \<open>+\<close> on a class: the longest run first, then one code unit less at a time\<close>
  "m_plus P st =
     map (\<lambda>n. advance n st) (rev [1..<Suc (length (takeWhile P (remaining st)))])"

definition m_seq :: "matcher \<Rightarrow> matcher \<Rightarrow> matcher" where
  "m_seq a b st = concat (map b (a st))"

definition m_seqs :: "matcher list \<Rightarrow> matcher" where
  "m_seqs rs = foldr m_seq rs (\<lambda>st. [st])"

definition m_opt :: "matcher \<Rightarrow> matcher" where
  \<comment> \<open>greedy \<open>?\<close>: with the atom first, then without\<close>
  "m_opt a st = a st @ [st]"

definition m_group :: "string \<Rightarrow> matcher \<Rightarrow> matcher" where
  \<comment> \<open>a capturing group\<close>
  "m_group g a st =
     map (\<lambda>st'. st'\<lparr>captures := (captures st')(g \<mapsto> drop (length (consumed st)) (consumed st'))\<rparr>)
       (a st)"

definition m_backref :: "string \<Rightarrow> matcher" where
  \<comment> \<open>\<open>\k<g>\<close>: a group that did not take part matches the empty string\<close>
  "m_backref g st =
     (case captures st g of
        None \<Rightarrow> [st]
      | Some t \<Rightarrow> if take (length t) (remaining st) = t then [advance (length t) st] else [])"

definition m_end :: matcher where
  \<comment> \<open>\<open>$\<close> without the \<open>m\<close> flag\<close>
  "m_end st = (if remaining st = [] then [st] else [])"

definition m_lookbehind_start :: "js_string \<Rightarrow> matcher" where
  \<comment> \<open>\<open>(?<=^l)\<close>: the input before the position is exactly \<open>l\<close>\<close>
  "m_lookbehind_start l st = (if consumed st = l then [st] else [])"

fun exec_from :: "matcher \<Rightarrow> js_string \<Rightarrow> js_string \<Rightarrow> (js_string \<times> match_state) option" where
  "exec_from r skipped [] =
     (case r \<lparr>consumed = skipped, remaining = [], captures = Map.empty\<rparr> of
        [] \<Rightarrow> None
      | m # _ \<Rightarrow> Some (skipped, m))"
| "exec_from r skipped (c # cs) =
     (case r \<lparr>consumed = skipped, remaining = c # cs, captures = Map.empty\<rparr> of
        [] \<Rightarrow> exec_from r (skipped @ [c]) cs
      | m # _ \<Rightarrow> Some (skipped, m))"

definition exec :: "matcher \<Rightarrow> js_string \<Rightarrow> (js_string \<times> match_state) option" where
  \<comment> \<open>the input before the match, and the state at its end\<close>
  "exec r s = exec_from r [] s"

definition replace :: "matcher \<Rightarrow> (match_state \<Rightarrow> js_string) \<Rightarrow> js_string \<Rightarrow> js_string" where
  \<comment> \<open>\<open>s.replace(r, f)\<close> for a regular expression without the \<open>g\<close> flag\<close>
  "replace r f s =
     (case exec r s of
        None \<Rightarrow> s
      | Some (skipped, m) \<Rightarrow> skipped @ f m @ remaining m)"

section \<open>The program\<close>

record position =
  line :: number
  column :: number

definition getCodePoint :: "js_string \<Rightarrow> js_string" where
  "getCodePoint character =
     [0x5C] @ lit ''u{'' @ toString16 (case codePointAt0 character of None \<Rightarrow> 0 | Some p \<Rightarrow> p) @ lit ''}''"

text \<open>
  The class \<open>JSONError\<close>. The private field \<open>#message\<close> is \<open>private_message\<close>; the accessor
  pair \<open>message\<close> is \<open>get_message\<close> and \<open>set_message\<close>. The stack trace that
  \<open>Error.captureStackTrace\<close> records is not part of the model.
\<close>

record JSONError =
  name :: js_string
  fileName :: "js_string option"
  codeFrame :: "js_string option"
  rawCodeFrame :: "js_string option"
  private_message :: js_string

text \<open>
  \<open>codeFrameColumns\<close> of \<open>@babel/code-frame\<close> and \<open>indexToPosition\<close> of
  \<open>@smushytaco/index-to-position\<close> are other packages; so is the engine's \<open>JSON.parse\<close>.
  They are parameters of the functions that call them. \<open>indexToPosition\<close> throws on an
  index out of range, \<open>JSON.parse\<close> throws whatever it or the reviver throws and calls
  the reviver: it returns the calls it made together with its result.
\<close>

text \<open>
  What the other packages and the reviver throw: a value \<open>x\<close> of any type, which either is an
  instance of \<open>Error\<close> (of any subclass) and has a \<open>message\<close>, or is not.
\<close>

datatype 'x thrown =
  ErrorInstance 'x js_string  \<comment> \<open>\<open>error instanceof Error\<close>, with \<open>error.message\<close>\<close>
| NonError 'x

datatype 'x exception =
  Thrown_JSONError JSONError
| Thrown "'x thrown"

type_synonym codeFrameColumns_t = "js_string \<Rightarrow> position \<Rightarrow> bool \<Rightarrow> js_string"
type_synonym 'x indexToPosition_t = "js_string \<Rightarrow> number \<Rightarrow> 'x thrown + position"
type_synonym ('v, 'r, 'c, 'x) JSON_parse_t = "js_string \<Rightarrow> 'r \<Rightarrow> 'c list \<times> ('x thrown + 'v)"

definition generateCodeFrame :: "codeFrameColumns_t \<Rightarrow> js_string \<Rightarrow> position \<Rightarrow> bool \<Rightarrow> js_string" where
  "generateCodeFrame codeFrameColumns string location highlightCode =
     codeFrameColumns string location highlightCode"

definition new_JSONError ::
  "codeFrameColumns_t \<Rightarrow> js_string \<Rightarrow> js_string option \<Rightarrow> position option \<Rightarrow> JSONError" where
  "new_JSONError codeFrameColumns message jsonString location =
     (let this = \<lparr>name = lit ''JSONError'', fileName = None, codeFrame = None,
                  rawCodeFrame = None, private_message = message\<rparr>
      in if truthy jsonString \<and> location \<noteq> None
         then this\<lparr>codeFrame :=
                     Some (generateCodeFrame codeFrameColumns (the jsonString) (the location) True),
                   rawCodeFrame :=
                     Some (generateCodeFrame codeFrameColumns (the jsonString) (the location) False)\<rparr>
         else this)"

definition get_message :: "JSONError \<Rightarrow> js_string" where
  "get_message this =
     (let locationInfo = (if truthy (fileName this) then lit '' in '' @ the (fileName this) else []);
          frameInfo = (if truthy (codeFrame this)
                       then [0x0A, 0x0A] @ the (codeFrame this) @ [0x0A] else [])
      in private_message this @ locationInfo @ frameInfo)"

definition set_message :: "js_string \<Rightarrow> JSONError \<Rightarrow> JSONError" where
  "set_message message this = this\<lparr>private_message := message\<rparr>"

definition set_fileName :: "js_string option \<Rightarrow> JSONError \<Rightarrow> JSONError" where
  \<comment> \<open>the assignment \<open>jsonError.fileName = fileName\<close>\<close>
  "set_fileName f this = this\<lparr>fileName := f\<rparr>"

definition location_regex :: matcher where
  "location_regex =
     m_seqs
       [m_lit (lit ''in JSON at position ''),
        m_group ''index'' (m_plus is_digit),
        m_opt (m_seqs
          [m_lit (lit '' (line ''),
           m_group ''line'' (m_plus is_digit),
           m_lit (lit '' column ''),
           m_group ''column'' (m_plus is_digit),
           m_lit (lit '')'')]),
        m_end]"

definition getErrorLocation ::
  "'x indexToPosition_t \<Rightarrow> js_string \<Rightarrow> js_string \<Rightarrow> 'x thrown + position option" where
  "getErrorLocation indexToPosition string message =
     (case exec location_regex message of
        None \<Rightarrow> Inr None
      | Some (_, match) \<Rightarrow>
          (let index = captures match ''index'';
               line = captures match ''line'';
               column = captures match ''column''
           in if truthy line \<and> truthy column
              then Inr (Some \<lparr>line = Number line, column = Number column\<rparr>)
              else
                (let parsedIndex = Number index
                 in if parsedIndex = string_length string
                    then (case indexToPosition string (js_add (string_length string) (- 1)) of
                            Inl e \<Rightarrow> Inl e
                          | Inr p \<Rightarrow> Inr (Some \<lparr>line = position.line p,
                                              column = js_add (position.column p) 1\<rparr>))
                    else (case indexToPosition string parsedIndex of
                            Inl e \<Rightarrow> Inl e
                          | Inr p \<Rightarrow> Inr (Some p)))))"

text \<open>
  The second group of the expression has no name; its capture is stored under \<open>''2''\<close>. It
  takes part in every match, so the callback of \<open>replace\<close> always has a token.
\<close>

definition unexpected_token_regex :: matcher where
  "unexpected_token_regex =
     m_seqs
       [m_lookbehind_start (lit ''Unexpected token ''),
        m_opt (m_group ''quote'' (m_lit [0x27])),
        m_group ''2'' (m_char (\<lambda>c. \<not> is_line_terminator c)),
        m_backref ''quote'']"

definition addCodePointToUnexpectedToken :: "js_string \<Rightarrow> js_string" where
  "addCodePointToUnexpectedToken message =
     replace unexpected_token_regex
       (\<lambda>m. case captures m ''2'' of
               None \<Rightarrow> []
             | Some token \<Rightarrow> [0x22] @ token @ [0x22] @ lit ''('' @ getCodePoint token @ lit '')'')
       message"

definition parseJson ::
  "('v, 'r, 'c, 'x) JSON_parse_t \<Rightarrow> 'x indexToPosition_t \<Rightarrow> codeFrameColumns_t \<Rightarrow>
     js_string \<Rightarrow> 'r \<Rightarrow> js_string option \<Rightarrow> 'c list \<times> ('x exception + 'v)" where
  "parseJson JSON_parse indexToPosition codeFrameColumns string reviver file_name =
     (case JSON_parse string reviver of
        (calls, Inr v) \<Rightarrow> (calls, Inr v)
      | (calls, Inl error) \<Rightarrow>
          (calls,
           case error of
             NonError _ \<Rightarrow> Inl (Thrown error)
           | ErrorInstance _ message \<Rightarrow>
               (if string \<noteq> []
                then (case getErrorLocation indexToPosition string message of
                        Inl e \<Rightarrow> Inl (Thrown e)
                      | Inr location \<Rightarrow>
                          Inl (Thrown_JSONError
                                (set_fileName file_name
                                  (new_JSONError codeFrameColumns
                                    (addCodePointToUnexpectedToken message) (Some string) location))))
                else Inl (Thrown_JSONError
                           (set_fileName file_name
                             (new_JSONError codeFrameColumns
                               (message @ lit '' while parsing empty string'') (Some string) None))))))"

section \<open>Notions used in the statements\<close>

subsection \<open>Messages that carry a location\<close>

definition digits :: "js_string \<Rightarrow> bool" where
  \<comment> \<open>one or more decimal digits\<close>
  "digits ds = (ds \<noteq> [] \<and> list_all is_digit ds)"

definition strip :: "js_string \<Rightarrow> js_string \<Rightarrow> js_string option" where
  \<comment> \<open>the rest of \<open>s\<close> after the prefix \<open>l\<close>, if \<open>s\<close> starts with \<open>l\<close>\<close>
  "strip l s = (if take (length l) s = l then Some (drop (length l) s) else None)"

definition offset_text :: "js_string \<Rightarrow> bool" where
  \<comment> \<open>the text \<open>in JSON at position <offset>\<close>\<close>
  "offset_text s =
     (case strip (lit ''in JSON at position '') s of
        None \<Rightarrow> False
      | Some r \<Rightarrow> digits r)"

definition line_column_text :: "js_string \<Rightarrow> bool" where
  \<comment> \<open>the text \<open>in JSON at position <offset> (line <line> column <column>)\<close>\<close>
  "line_column_text s =
     (case strip (lit ''in JSON at position '') s of
        None \<Rightarrow> False
      | Some r \<Rightarrow>
          digits (takeWhile is_digit r) \<and>
          (case strip (lit '' (line '') (dropWhile is_digit r) of
             None \<Rightarrow> False
           | Some r2 \<Rightarrow>
               digits (takeWhile is_digit r2) \<and>
               (case strip (lit '' column '') (dropWhile is_digit r2) of
                  None \<Rightarrow> False
                | Some r3 \<Rightarrow>
                    digits (takeWhile is_digit r3) \<and> dropWhile is_digit r3 = lit '')'')))"

fun ends_with :: "(js_string \<Rightarrow> bool) \<Rightarrow> js_string \<Rightarrow> bool" where
  \<comment> \<open>some suffix of the string has the property\<close>
  "ends_with P [] = P []"
| "ends_with P (c # cs) = (P (c # cs) \<or> ends_with P cs)"

subsection \<open>The unexpected token of a message\<close>

definition quoted_token :: "js_string \<Rightarrow> (code_unit \<times> js_string) option" where
  \<comment> \<open>a code unit other than a line terminator between two single quotes, and what follows\<close>
  "quoted_token s =
     (case s of
        q # X # q' # rest \<Rightarrow>
          if q = 0x27 \<and> q' = 0x27 \<and> \<not> is_line_terminator X then Some (X, rest) else None
      | _ \<Rightarrow> None)"

definition bare_token :: "js_string \<Rightarrow> (code_unit \<times> js_string) option" where
  \<comment> \<open>a code unit other than a line terminator, and what follows\<close>
  "bare_token s =
     (case s of
        X # rest \<Rightarrow> if \<not> is_line_terminator X then Some (X, rest) else None
      | [] \<Rightarrow> None)"

definition unexpected_token :: "js_string \<Rightarrow> (code_unit \<times> js_string) option" where
  \<comment> \<open>the token of a message that starts with \<open>Unexpected token\<close>, the quoted reading first\<close>
  "unexpected_token message =
     (case strip (lit ''Unexpected token '') message of
        None \<Rightarrow> None
      | Some s \<Rightarrow> (case quoted_token s of Some r \<Rightarrow> Some r | None \<Rightarrow> bare_token s))"

definition hex_digit_value :: "code_unit \<Rightarrow> nat" where
  "hex_digit_value c = (if c \<le> 0x39 then unat c - 48 else unat c - 87)"

subsection \<open>The message as the specification composes it\<close>

definition spec_message :: "JSONError \<Rightarrow> js_string" where
  \<comment> \<open>base message, then the file name if there is one, then the code frame if there is one\<close>
  "spec_message e =
     private_message e @
     (case fileName e of None \<Rightarrow> [] | Some f \<Rightarrow> lit '' in '' @ f) @
     (case codeFrame e of None \<Rightarrow> [] | Some frame \<Rightarrow> [0x0A, 0x0A] @ frame @ [0x0A])"

subsection \<open>What a caller can do to a \<open>JSONError\<close>\<close>

text \<open>
  \<open>codeFrame\<close> and \<open>rawCodeFrame\<close> are declared \<open>readonly\<close>: the assignments that type-check
  are those to \<open>message\<close> and to \<open>fileName\<close>.
\<close>

datatype JSONError_op = Assign_message js_string | Assign_fileName "js_string option"

fun apply_op :: "JSONError_op \<Rightarrow> JSONError \<Rightarrow> JSONError" where
  "apply_op (Assign_message m) e = set_message m e"
| "apply_op (Assign_fileName f) e = set_fileName f e"

subsection \<open>Notions used in the proofs\<close>

definition first_match :: "matcher \<Rightarrow> match_state \<Rightarrow> match_state option" where
  "first_match r st = (case r st of [] \<Rightarrow> None | m # _ \<Rightarrow> Some m)"

definition accepts :: "matcher \<Rightarrow> (js_string \<Rightarrow> bool) \<Rightarrow> bool" where
  \<comment> \<open>whatever the matcher consumes has the property \<open>W\<close>\<close>
  "accepts a W = (\<forall>st m. m \<in> set (a st) \<longrightarrow> (\<exists>w. W w \<and> remaining st = w @ remaining m))"

definition final :: "matcher \<Rightarrow> bool" where
  \<comment> \<open>the matcher only ends at the end of the input\<close>
  "final a = (\<forall>st m. m \<in> set (a st) \<longrightarrow> remaining m = [])"

definition token_state :: "js_string \<Rightarrow> bool \<Rightarrow> code_unit \<times> js_string \<Rightarrow> match_state" where
  "token_state k quoted r =
     \<lparr>consumed = k @ (if quoted then [0x27, fst r, 0x27] else [fst r]),
      remaining = snd r,
      captures = (if quoted then [''quote'' \<mapsto> [0x27], ''2'' \<mapsto> [fst r]] else [''2'' \<mapsto> [fst r]])\<rparr>"

section \<open>Properties of the model\<close>

subsection \<open>Numbers\<close>

lemma excess_bits_small: "n < 2 ^ 53 \<Longrightarrow> excess_bits n = 0"
  by (simp add: excess_bits.simps)

lemma nearest_double_exact: "n \<le> 2 ^ 53 \<Longrightarrow> nearest_double n = Num (int n)"
proof (cases "n < 2 ^ 53")
  case True
  then have "n < 2 ^ 1024"
    by (rule less_trans) simp
  with True show ?thesis
    by (simp add: nearest_double_def excess_bits_small)
next
  case False
  assume "n \<le> 2 ^ 53"
  with False have n: "n = 2 ^ 53" by simp
  have "excess_bits (2 ^ 53) = 1"
    by (subst excess_bits.simps) (simp add: excess_bits_small)
  then show ?thesis
    by (simp add: nearest_double_def n)
qed

lemma to_double_exact: "\<bar>i\<bar> \<le> 2 ^ 53 \<Longrightarrow> to_double i = Num i"
  by (auto simp: to_double_def nearest_double_exact nat_le_iff)

lemma js_add_exact: "\<bar>i + k\<bar> \<le> 2 ^ 53 \<Longrightarrow> js_add (Num i) k = Num (i + k)"
  by (simp add: js_add_def to_double_exact)

lemma Number_exact:
  "decimal_value ds \<le> 2 ^ 53 \<Longrightarrow> Number (Some ds) = Num (int (decimal_value ds))"
  by (simp add: Number_def nearest_double_exact)

lemma truthy_digits: "digits ds \<Longrightarrow> truthy (Some ds)"
  by (simp add: truthy_def digits_def)

subsection \<open>Hexadecimal digits\<close>

lemma hex_digit_cases:
  assumes "d < 16"
  shows "hex_digit d \<in> set (lit ''0123456789abcdef'') \<and> hex_digit_value (hex_digit d) = d \<and>
         (d \<noteq> 0 \<longrightarrow> hex_digit d \<noteq> 0x30)"
proof -
  from assms have "d = 0 \<or> d = 1 \<or> d = 2 \<or> d = 3 \<or> d = 4 \<or> d = 5 \<or> d = 6 \<or> d = 7 \<or> d = 8 \<or>
      d = 9 \<or> d = 10 \<or> d = 11 \<or> d = 12 \<or> d = 13 \<or> d = 14 \<or> d = 15"
    by arith
  then show ?thesis
    by (elim disjE) (simp_all add: hex_digit_def hex_digit_value_def lit_def)
qed

lemma toString16_digits: "set (toString16 n) \<subseteq> set (lit ''0123456789abcdef'')"
proof (induction n rule: toString16.induct)
  case (1 n)
  show ?case
  proof (cases "n < 16")
    case True
    then show ?thesis
      using hex_digit_cases [of n] by (simp add: toString16.simps [of n])
  next
    case False
    then show ?thesis
      using 1 hex_digit_cases [of "n mod 16"] by (simp add: toString16.simps [of n])
  qed
qed

lemma toString16_not_Nil: "toString16 n \<noteq> []"
  by (subst toString16.simps) simp

lemma toString16_unpadded: "n \<noteq> 0 \<Longrightarrow> hd (toString16 n) \<noteq> 0x30"
proof (induction n rule: toString16.induct)
  case (1 n)
  show ?case
  proof (cases "n < 16")
    case True
    then show ?thesis
      using 1(2) hex_digit_cases [of n] by (simp add: toString16.simps [of n])
  next
    case False
    then have "n div 16 \<noteq> 0" by auto
    with False 1 show ?thesis
      by (simp add: toString16.simps [of n] toString16_not_Nil)
  qed
qed

lemma toString16_value:
  "foldl (\<lambda>a c. 16 * a + hex_digit_value c) 0 (toString16 n) = n"
proof (induction n rule: toString16.induct)
  case (1 n)
  show ?case
  proof (cases "n < 16")
    case True
    then show ?thesis
      using hex_digit_cases [of n] by (simp add: toString16.simps [of n])
  next
    case False
    then show ?thesis
      using 1 hex_digit_cases [of "n mod 16"] by (simp add: toString16.simps [of n])
  qed
qed

subsection \<open>Matchers\<close>

lemma m_seqs_Nil: "m_seqs [] st = [st]"
  by (simp add: m_seqs_def)

lemma m_seqs_Cons: "m_seqs (r # rs) = m_seq r (m_seqs rs)"
  by (simp add: m_seqs_def)

lemma concat_map_concat:
  "concat (map f (concat xss)) = concat (map (\<lambda>xs. concat (map f xs)) xss)"
  by (induction xss) simp_all

lemma m_seq_assoc: "m_seq (m_seq a b) c = m_seq a (m_seq b c)"
  by (rule ext) (simp add: m_seq_def [abs_def] concat_map_concat comp_def)

lemma m_seq_unit: "m_seq (m_seqs []) b = b"
  by (rule ext) (simp add: m_seq_def m_seqs_def)

lemma first_seq:
  "first_match a st = Some x \<Longrightarrow> first_match b x = Some m \<Longrightarrow> first_match (m_seq a b) st = Some m"
  by (auto simp: first_match_def m_seq_def split: list.splits)

lemma first_group:
  "first_match a st = Some x \<Longrightarrow>
   first_match (m_group g a) st =
     Some (x\<lparr>captures := (captures x)(g \<mapsto> drop (length (consumed st)) (consumed x))\<rparr>)"
  by (auto simp: first_match_def m_group_def split: list.splits)

lemma first_lit:
  "remaining st = l @ rest \<Longrightarrow>
   first_match (m_lit l) st = Some (st\<lparr>consumed := consumed st @ l, remaining := rest\<rparr>)"
  by (simp add: first_match_def m_lit_def advance_def)

lemma first_plus:
  assumes "remaining st = ds @ rest" "ds \<noteq> []" "list_all P ds" "rest = [] \<or> \<not> P (hd rest)"
  shows "first_match (m_plus P) st = Some (st\<lparr>consumed := consumed st @ ds, remaining := rest\<rparr>)"
proof -
  have tw: "takeWhile P (ds @ rest) = ds"
    using assms by (cases rest) (auto simp: list_all_iff)
  have "rev [1..<Suc (length ds)] = length ds # rev [1..<length ds]"
    using assms(2) by (cases ds) simp_all
  then show ?thesis
    by (simp add: first_match_def m_plus_def assms(1) tw advance_def)
qed

lemma first_opt_hit:
  "first_match (m_seq a b) st = Some m \<Longrightarrow> first_match (m_seq (m_opt a) b) st = Some m"
  by (cases "concat (map b (a st))") (simp_all add: first_match_def m_seq_def m_opt_def)

lemma first_opt_skip:
  "a st = [] \<Longrightarrow> first_match (m_seq (m_opt a) b) st = first_match b st"
  by (simp add: first_match_def m_seq_def m_opt_def)

lemma exec_from_first:
  "exec_from r k s =
     (case first_match r \<lparr>consumed = k, remaining = s, captures = Map.empty\<rparr> of
        Some m \<Rightarrow> Some (k, m)
      | None \<Rightarrow> (case s of [] \<Rightarrow> None | c # cs \<Rightarrow> exec_from r (k @ [c]) cs))"
  by (cases s) (simp_all add: first_match_def split: list.splits)

lemma is_digit_space [simp]: "\<not> is_digit 0x20" "\<not> is_digit 0x29" "\<not> is_digit 0x4A"
  by (simp_all add: is_digit_def)

lemma lit_Cons: "lit (c # cs) = of_char c # lit cs"
  by (simp add: lit_def)

lemma location_regex_offset:
  assumes "idx \<noteq> []" "list_all is_digit idx"
  shows "first_match location_regex
           \<lparr>consumed = k, remaining = lit ''in JSON at position '' @ idx, captures = Map.empty\<rparr> =
         Some \<lparr>consumed = k @ lit ''in JSON at position '' @ idx, remaining = [],
               captures = [''index'' \<mapsto> idx]\<rparr>"
  unfolding location_regex_def m_seqs_Cons
  apply (rule first_seq)
   apply (rule first_lit [where rest = idx])
   apply simp
  apply (rule first_seq)
   apply (rule first_group)
   apply (rule first_plus [where ds = idx and rest = "[]"])
  using assms apply simp_all
  apply (subst first_opt_skip)
   apply (simp add: m_seq_def m_lit_def lit_Cons)
  apply (simp add: m_seq_def m_seqs_Nil first_match_def m_end_def)
  done

lemma not_digit_hd_lit:
  "\<not> is_digit (hd (lit '' (line '' @ x))" "\<not> is_digit (hd (lit '' column '' @ x))"
  "\<not> is_digit (hd (lit '')''))"
  by (simp_all add: lit_def)

lemma first_group_plus:
  assumes "ds \<noteq> []" "list_all P ds" "rest = [] \<or> \<not> P (hd rest)"
  shows "first_match (m_group g (m_plus P)) \<lparr>consumed = k, remaining = ds @ rest, captures = cs\<rparr> =
           Some \<lparr>consumed = k @ ds, remaining = rest, captures = cs(g \<mapsto> ds)\<rparr>"
  using first_group [OF first_plus [of "\<lparr>consumed = k, remaining = ds @ rest, captures = cs\<rparr>" ds rest P], of g]
    assms by simp

lemma first_lit':
  "first_match (m_lit l) \<lparr>consumed = k, remaining = l @ rest, captures = cs\<rparr> =
     Some \<lparr>consumed = k @ l, remaining = rest, captures = cs\<rparr>"
  by (simp add: first_lit)

lemma location_regex_line_column:
  assumes "idx \<noteq> []" "list_all is_digit idx" "l \<noteq> []" "list_all is_digit l"
    "c \<noteq> []" "list_all is_digit c"
  shows "first_match location_regex
           \<lparr>consumed = k,
            remaining = lit ''in JSON at position '' @ idx @ lit '' (line '' @ l @
                        lit '' column '' @ c @ lit '')'',
            captures = Map.empty\<rparr> =
         Some \<lparr>consumed = k @ lit ''in JSON at position '' @ idx @ lit '' (line '' @ l @
                        lit '' column '' @ c @ lit '')'',
               remaining = [],
               captures = [''index'' \<mapsto> idx, ''line'' \<mapsto> l, ''column'' \<mapsto> c]\<rparr>"
proof -
  note side = assms not_digit_hd_lit
  show ?thesis
    unfolding location_regex_def m_seqs_Cons
    apply (rule first_seq, rule first_lit')
    apply (rule first_seq, rule first_group_plus, (simp add: side)+)
    apply (rule first_opt_hit)
    apply (simp only: m_seq_assoc m_seq_unit)
    apply (rule first_seq, rule first_lit')
    apply (rule first_seq, rule first_group_plus, (simp add: side)+)
    apply (rule first_seq, rule first_lit')
    apply (rule first_seq, rule first_group_plus, (simp add: side)+)
    apply (rule first_seq)
     apply (rule first_lit' [where rest = "[]", simplified])
    apply (simp add: m_seq_def m_seqs_Nil first_match_def m_end_def)
    done
qed

lemma strip_Some_iff: "strip l s = Some r \<longleftrightarrow> s = l @ r"
  by (auto simp: strip_def) (metis append_take_drop_id)

lemma strip_append [simp]: "strip l (l @ r) = Some r"
  by (simp add: strip_Some_iff)

lemma ends_with_iff: "ends_with P s \<longleftrightarrow> (\<exists>a b. s = a @ b \<and> P b)"
proof (induction s)
  case Nil
  then show ?case by simp
next
  case (Cons c cs)
  show ?case
  proof
    assume "ends_with P (c # cs)"
    then consider "P (c # cs)" | "ends_with P cs" by auto
    then show "\<exists>a b. c # cs = a @ b \<and> P b"
    proof cases
      case 1
      then show ?thesis by (metis append_Nil)
    next
      case 2
      then obtain a b where "cs = a @ b" "P b" using Cons.IH by auto
      then show ?thesis by (metis append_Cons)
    qed
  next
    assume "\<exists>a b. c # cs = a @ b \<and> P b"
    then obtain a b where ab: "c # cs = a @ b" "P b" by auto
    show "ends_with P (c # cs)"
    proof (cases a)
      case Nil
      then have "b = c # cs" using ab(1) by simp
      then show ?thesis using ab(2) by simp
    next
      case (Cons x a')
      then have "cs = a' @ b" using ab by simp
      then show ?thesis using ab(2) Cons.IH by auto
    qed
  qed
qed

lemma takeWhile_digits:
  assumes "list_all is_digit ds" "rest = [] \<or> \<not> is_digit (hd rest)"
  shows "takeWhile is_digit (ds @ rest) = ds" "dropWhile is_digit (ds @ rest) = rest"
  using assms by (cases rest; auto simp: list_all_iff)+

lemma offset_text_iff:
  "offset_text s \<longleftrightarrow> (\<exists>idx. digits idx \<and> s = lit ''in JSON at position '' @ idx)"
  by (auto simp: offset_text_def strip_Some_iff split: option.splits)

lemma line_column_textI:
  assumes "digits idx" "digits l" "digits c"
  shows "line_column_text (lit ''in JSON at position '' @ idx @ lit '' (line '' @ l @
           lit '' column '' @ c @ lit '')'')"
  using assms
  by (simp add: line_column_text_def digits_def takeWhile_digits not_digit_hd_lit)

lemma line_column_textD:
  assumes "line_column_text s"
  shows "\<exists>idx l c. digits idx \<and> digits l \<and> digits c \<and>
           s = lit ''in JSON at position '' @ idx @ lit '' (line '' @ l @
               lit '' column '' @ c @ lit '')''"
proof -
  from assms obtain r r2 r3 where
    r: "s = lit ''in JSON at position '' @ r" "digits (takeWhile is_digit r)" and
    r2: "dropWhile is_digit r = lit '' (line '' @ r2" "digits (takeWhile is_digit r2)" and
    r3: "dropWhile is_digit r2 = lit '' column '' @ r3" "digits (takeWhile is_digit r3)"
        "dropWhile is_digit r3 = lit '')''"
    by (auto simp: line_column_text_def strip_Some_iff split: option.splits)
  have "r = takeWhile is_digit r @ lit '' (line '' @ r2"
    using r2(1) by (metis takeWhile_dropWhile_id)
  moreover have "r2 = takeWhile is_digit r2 @ lit '' column '' @ r3"
    using r3(1) by (metis takeWhile_dropWhile_id)
  moreover have "r3 = takeWhile is_digit r3 @ lit '')''"
    using r3(3) by (metis takeWhile_dropWhile_id)
  ultimately have "s = lit ''in JSON at position '' @ takeWhile is_digit r @ lit '' (line '' @
      takeWhile is_digit r2 @ lit '' column '' @ takeWhile is_digit r3 @ lit '')''"
    using r(1) by simp
  then show ?thesis using r(2) r2(2) r3(2) by blast
qed

lemma accepts_lit: "accepts (m_lit l) (\<lambda>w. w = l)"
  by (auto simp: accepts_def m_lit_def advance_def split: if_splits) (metis append_take_drop_id)

lemma accepts_plus: "accepts (m_plus P) (\<lambda>w. w \<noteq> [] \<and> list_all P w)"
proof -
  have "\<exists>w. (w \<noteq> [] \<and> list_all P w) \<and> r = w @ drop n r"
    if "1 \<le> n" "n \<le> length (takeWhile P r)" for n and r :: js_string
  proof (intro exI [of _ "take n r"] conjI)
    have len: "length (takeWhile P r) \<le> length r" by (rule length_takeWhile_le)
    show "take n r \<noteq> []" using that len by (cases r) auto
    have "take n r = take n (takeWhile P r)"
      using that(2) by (metis append_eq_conv_conj takeWhile_dropWhile_id take_append
          diff_is_0_eq take_0 append_Nil2 take_take min.absorb1 takeWhile_eq_take)
    then show "list_all P (take n r)"
      by (metis in_set_takeD list_all_iff set_takeWhileD)
    show "r = take n r @ drop n r" by simp
  qed
  then show ?thesis
    by (auto simp: accepts_def m_plus_def advance_def)
qed

lemma accepts_group: "accepts a W \<Longrightarrow> accepts (m_group g a) W"
  by (fastforce simp: accepts_def m_group_def)

lemma accepts_opt: "accepts a W \<Longrightarrow> accepts (m_opt a) (\<lambda>w. w = [] \<or> W w)"
  by (auto simp: accepts_def m_opt_def)

lemma accepts_end: "accepts (m_seq m_end (m_seqs [])) (\<lambda>w. w = [])"
  by (auto simp: accepts_def m_end_def m_seq_def m_seqs_Nil split: if_splits)

lemma accepts_nil: "accepts (m_seqs []) (\<lambda>w. w = [])"
  by (auto simp: accepts_def m_seqs_Nil)

lemma final_end: "final (m_seq m_end (m_seqs []))"
  by (auto simp: final_def m_end_def m_seq_def m_seqs_Nil split: if_splits)

lemma final_seq: "final b \<Longrightarrow> final (m_seq a b)"
  by (auto simp: final_def m_seq_def)

lemma accepts_seq:
  assumes "accepts a U" "accepts b V" "\<And>u v. U u \<Longrightarrow> V v \<Longrightarrow> W (u @ v)"
  shows "accepts (m_seq a b) W"
  unfolding accepts_def
proof (intro allI impI)
  fix st m
  assume "m \<in> set (m_seq a b st)"
  then obtain x where x: "x \<in> set (a st)" "m \<in> set (b x)"
    by (auto simp: m_seq_def)
  from assms(1) x(1) obtain u where u: "U u" "remaining st = u @ remaining x"
    by (auto simp: accepts_def)
  from assms(2) x(2) obtain v where v: "V v" "remaining x = v @ remaining m"
    by (auto simp: accepts_def)
  have "W (u @ v)" using u(1) v(1) by (rule assms(3))
  moreover have "remaining st = (u @ v) @ remaining m" using u(2) v(2) by simp
  ultimately show "\<exists>w. W w \<and> remaining st = w @ remaining m" by blast
qed

lemma accepts_digits: "accepts (m_group g (m_plus is_digit)) digits"
  using accepts_group [OF accepts_plus [of is_digit], of g] by (simp add: digits_def [abs_def])

lemma accepts_line_column:
  "accepts
     (m_seqs [m_lit (lit '' (line ''), m_group ''line'' (m_plus is_digit),
              m_lit (lit '' column ''), m_group ''column'' (m_plus is_digit), m_lit (lit '')'')])
     (\<lambda>w. \<exists>l c. digits l \<and> digits c \<and>
            w = lit '' (line '' @ l @ lit '' column '' @ c @ lit '')'')"
proof -
  have g5: "accepts (m_seq (m_lit (lit '')'')) (m_seqs [])) (\<lambda>w. w = lit '')'')"
    by (rule accepts_seq [OF accepts_lit accepts_nil]) simp
  have g4: "accepts (m_seq (m_group ''column'' (m_plus is_digit)) (m_seq (m_lit (lit '')'')) (m_seqs [])))
              (\<lambda>w. \<exists>c. digits c \<and> w = c @ lit '')'')"
    by (rule accepts_seq [OF accepts_digits g5]) auto
  have g3: "accepts (m_seq (m_lit (lit '' column ''))
              (m_seq (m_group ''column'' (m_plus is_digit)) (m_seq (m_lit (lit '')'')) (m_seqs []))))
              (\<lambda>w. \<exists>c. digits c \<and> w = lit '' column '' @ c @ lit '')'')"
    by (rule accepts_seq [OF accepts_lit g4]) auto
  have g2: "accepts (m_seq (m_group ''line'' (m_plus is_digit)) (m_seq (m_lit (lit '' column ''))
              (m_seq (m_group ''column'' (m_plus is_digit)) (m_seq (m_lit (lit '')'')) (m_seqs [])))))
              (\<lambda>w. \<exists>l c. digits l \<and> digits c \<and> w = l @ lit '' column '' @ c @ lit '')'')"
    by (rule accepts_seq [OF accepts_digits g3]) auto
  show ?thesis
    unfolding m_seqs_Cons
    by (rule accepts_seq [OF accepts_lit g2]) auto
qed

lemmas accepts_line_column' = accepts_line_column [unfolded m_seqs_Cons]

lemma accepts_location_regex:
  "accepts location_regex
     (\<lambda>w. \<exists>idx. digits idx \<and>
        (w = lit ''in JSON at position '' @ idx \<or>
         (\<exists>l c. digits l \<and> digits c \<and>
            w = lit ''in JSON at position '' @ idx @ lit '' (line '' @ l @
                lit '' column '' @ c @ lit '')'')))"
proof -
  let ?G = "m_seq (m_lit (lit '' (line '')) (m_seq (m_group ''line'' (m_plus is_digit))
              (m_seq (m_lit (lit '' column '')) (m_seq (m_group ''column'' (m_plus is_digit))
                (m_seq (m_lit (lit '')'')) (m_seqs [])))))"
  let ?T = "\<lambda>w. \<exists>l c. digits l \<and> digits c \<and>
            w = lit '' (line '' @ l @ lit '' column '' @ c @ lit '')''"
  have o: "accepts (m_seq (m_opt ?G) (m_seq m_end (m_seqs []))) (\<lambda>w. w = [] \<or> ?T w)"
    by (rule accepts_seq [OF accepts_opt [OF accepts_line_column'] accepts_end]) auto
  have i: "accepts (m_seq (m_group ''index'' (m_plus is_digit))
              (m_seq (m_opt ?G) (m_seq m_end (m_seqs []))))
             (\<lambda>w. \<exists>idx. digits idx \<and> (w = idx \<or> (\<exists>t. ?T t \<and> w = idx @ t)))"
    by (rule accepts_seq [OF accepts_digits o]) auto
  show ?thesis
    unfolding location_regex_def m_seqs_Cons
    by (rule accepts_seq [OF accepts_lit i]) auto
qed

lemma location_regex_sound:
  assumes "m \<in> set (location_regex st)"
  shows "offset_text (remaining st) \<or> line_column_text (remaining st)"
proof -
  have "final location_regex"
    unfolding location_regex_def m_seqs_Cons by (intro final_seq final_end)
  with assms have "remaining m = []" by (auto simp: final_def)
  with accepts_location_regex assms obtain idx where
    "digits idx" and
    "remaining st = lit ''in JSON at position '' @ idx \<or>
     (\<exists>l c. digits l \<and> digits c \<and>
        remaining st = lit ''in JSON at position '' @ idx @ lit '' (line '' @ l @
                lit '' column '' @ c @ lit '')'')"
    unfolding accepts_def by fastforce
  then show ?thesis
    using line_column_textI by (auto simp: offset_text_iff)
qed

lemma digit_not_J: "is_digit c \<Longrightarrow> c \<noteq> 0x4A"
  by (auto simp: is_digit_def)

lemma located_length:
  assumes "offset_text s \<or> line_column_text s"
  shows "length s = 4 + length (takeWhile (\<lambda>c. c \<noteq> 0x4A) (rev s))" and "0x4A \<in> set s"
proof -
  have "\<exists>t. s = lit ''in JSON at position '' @ t \<and> (\<forall>c\<in>set t. c \<noteq> 0x4A)"
    using assms
  proof
    assume "offset_text s"
    then obtain idx where "digits idx" "s = lit ''in JSON at position '' @ idx"
      by (auto simp: offset_text_iff)
    moreover from this have "\<forall>c\<in>set idx. c \<noteq> 0x4A"
      by (auto simp: digits_def list_all_iff digit_not_J)
    ultimately show ?thesis by blast
  next
    assume "line_column_text s"
    then obtain idx l c where d: "digits idx" "digits l" "digits c" and
      s: "s = lit ''in JSON at position '' @ (idx @ lit '' (line '' @ l @
               lit '' column '' @ c @ lit '')'')"
      using line_column_textD by fastforce
    have "\<forall>x\<in>set (lit '' (line '') \<union> set (lit '' column '') \<union> set (lit '')''). x \<noteq> 0x4A"
      by (simp add: lit_def)
    with d have "\<forall>x\<in>set (idx @ lit '' (line '' @ l @ lit '' column '' @ c @ lit '')''). x \<noteq> 0x4A"
      by (auto simp: digits_def list_all_iff digit_not_J)
    with s show ?thesis by blast
  qed
  then obtain t where
    s: "s = lit ''in JSON at position '' @ t" and t: "\<forall>c\<in>set t. c \<noteq> 0x4A"
    by blast
  have L: "takeWhile (\<lambda>c. c \<noteq> 0x4A) (rev (lit ''in JSON at position '')) =
             rev (lit ''SON at position '')"
    by (simp add: lit_def)
  have "takeWhile (\<lambda>c. c \<noteq> 0x4A) (rev t @ rev (lit ''in JSON at position '')) =
          rev t @ takeWhile (\<lambda>c. c \<noteq> 0x4A) (rev (lit ''in JSON at position ''))"
    by (rule takeWhile_append2) (use t in auto)
  then have "takeWhile (\<lambda>c. c \<noteq> 0x4A) (rev s) = rev t @ rev (lit ''SON at position '')"
    by (simp add: s L)
  then show "length s = 4 + length (takeWhile (\<lambda>c. c \<noteq> 0x4A) (rev s))"
    by (simp add: s lit_def)
  show "0x4A \<in> set s"
    by (simp add: s lit_def)
qed

lemma located_unique:
  assumes "offset_text s \<or> line_column_text s"
    and "offset_text (b @ s) \<or> line_column_text (b @ s)"
  shows "b = []"
proof -
  have "0x4A \<in> set (rev s)" using located_length(2) [OF assms(1)] by simp
  then have "takeWhile (\<lambda>c. c \<noteq> 0x4A) (rev s @ rev b) = takeWhile (\<lambda>c. c \<noteq> 0x4A) (rev s)"
    by (intro takeWhile_append1 [where x = "0x4A"]) simp_all
  then have "length (b @ s) = length s"
    using located_length(1) [OF assms(1)] located_length(1) [OF assms(2)] by simp
  then show ?thesis by simp
qed

lemma exec_from_skip:
  assumes "\<And>a b. pre = a @ b \<Longrightarrow> b \<noteq> [] \<Longrightarrow>
             r \<lparr>consumed = k @ a, remaining = b @ s, captures = Map.empty\<rparr> = []"
  shows "exec_from r k (pre @ s) = exec_from r (k @ pre) s"
  using assms
proof (induction pre arbitrary: k)
  case Nil
  then show ?case by simp
next
  case (Cons c pre)
  have "r \<lparr>consumed = k, remaining = (c # pre) @ s, captures = Map.empty\<rparr> = []"
    using Cons.prems [of "[]" "c # pre"] by simp
  then have "exec_from r k ((c # pre) @ s) = exec_from r (k @ [c]) (pre @ s)"
    by simp
  also have "\<dots> = exec_from r ((k @ [c]) @ pre) s"
  proof (rule Cons.IH)
    fix a b
    assume "pre = a @ b" "b \<noteq> []"
    then show "r \<lparr>consumed = (k @ [c]) @ a, remaining = b @ s, captures = Map.empty\<rparr> = []"
      using Cons.prems [of "c # a" b] by simp
  qed
  finally show ?case by simp
qed

lemma exec_from_hit:
  "first_match r \<lparr>consumed = k, remaining = s, captures = Map.empty\<rparr> = Some m \<Longrightarrow>
   exec_from r k s = Some (k, m)"
  by (simp add: exec_from_first)

lemma exec_from_SomeD:
  "exec_from r k s = Some (k', m) \<Longrightarrow>
   \<exists>a b. s = a @ b \<and> k' = k @ a \<and>
     m \<in> set (r \<lparr>consumed = k', remaining = b, captures = Map.empty\<rparr>)"
proof (induction s arbitrary: k)
  case Nil
  then show ?case by (auto split: list.splits)
next
  case (Cons c cs)
  show ?case
  proof (cases "r \<lparr>consumed = k, remaining = c # cs, captures = Map.empty\<rparr>")
    case Nil
    with Cons.prems have "exec_from r (k @ [c]) cs = Some (k', m)" by simp
    from Cons.IH [OF this] obtain a b where "cs = a @ b" "k' = (k @ [c]) @ a"
      "m \<in> set (r \<lparr>consumed = k', remaining = b, captures = Map.empty\<rparr>)" by blast
    then show ?thesis by (intro exI [of _ "c # a"] exI [of _ b]) simp
  next
    case (Cons x xs)
    with Cons.prems have "k' = k" "m = x" by simp_all
    with Cons show ?thesis by (intro exI [of _ "[]"] exI [of _ "c # cs"]) simp
  qed
qed

lemma exec_location_regex:
  assumes t: "offset_text t \<or> line_column_text t"
    and m: "first_match location_regex \<lparr>consumed = pre, remaining = t, captures = Map.empty\<rparr> = Some m"
  shows "exec location_regex (pre @ t) = Some (pre, m)"
proof -
  have "exec_from location_regex [] (pre @ t) = exec_from location_regex ([] @ pre) t"
  proof (rule exec_from_skip)
    fix a b
    assume "pre = a @ b" "b \<noteq> []"
    show "location_regex \<lparr>consumed = [] @ a, remaining = b @ t, captures = Map.empty\<rparr> = []"
    proof (rule ccontr)
      assume "location_regex \<lparr>consumed = [] @ a, remaining = b @ t, captures = Map.empty\<rparr> \<noteq> []"
      then obtain x where
        "x \<in> set (location_regex \<lparr>consumed = [] @ a, remaining = b @ t, captures = Map.empty\<rparr>)"
        by (meson all_not_in_conv set_empty)
      from location_regex_sound [OF this] have "offset_text (b @ t) \<or> line_column_text (b @ t)"
        by simp
      from located_unique [OF t this] \<open>b \<noteq> []\<close> show False by simp
    qed
  qed
  then show ?thesis
    using exec_from_hit [OF m] by (simp add: exec_def)
qed

lemma exec_location_offset:
  assumes "digits idx"
  shows "exec location_regex (pre @ lit ''in JSON at position '' @ idx) =
         Some (pre, \<lparr>consumed = pre @ lit ''in JSON at position '' @ idx, remaining = [],
                      captures = [''index'' \<mapsto> idx]\<rparr>)"
  using assms
  by (intro exec_location_regex location_regex_offset) (auto simp: offset_text_iff digits_def)

lemma exec_location_line_column:
  assumes "digits idx" "digits l" "digits c"
  shows "exec location_regex (pre @ lit ''in JSON at position '' @ idx @ lit '' (line '' @ l @
                        lit '' column '' @ c @ lit '')'') =
         Some (pre, \<lparr>consumed = pre @ lit ''in JSON at position '' @ idx @ lit '' (line '' @ l @
                        lit '' column '' @ c @ lit '')'',
               remaining = [],
               captures = [''index'' \<mapsto> idx, ''line'' \<mapsto> l, ''column'' \<mapsto> c]\<rparr>)"
  using assms
  by (intro exec_location_regex location_regex_line_column disjI2 line_column_textI)
    (auto simp: digits_def)

lemma exec_location_None:
  assumes "\<not> ends_with offset_text message" "\<not> ends_with line_column_text message"
  shows "exec location_regex message = None"
proof (rule ccontr)
  assume "exec location_regex message \<noteq> None"
  then obtain k m where "exec_from location_regex [] message = Some (k, m)"
    by (auto simp: exec_def)
  from exec_from_SomeD [OF this] obtain a b where "message = a @ b"
    "m \<in> set (location_regex \<lparr>consumed = k, remaining = b, captures = Map.empty\<rparr>)"
    by blast
  then have "message = a @ b" "offset_text b \<or> line_column_text b"
    using location_regex_sound by fastforce+
  with assms show False by (auto simp: ends_with_iff)
qed

subsection \<open>The expression for an unexpected token\<close>

lemma unexpected_token_regex_at:
  "unexpected_token_regex \<lparr>consumed = k, remaining = s, captures = Map.empty\<rparr> =
     (if k = lit ''Unexpected token ''
      then (case quoted_token s of None \<Rightarrow> [] | Some r \<Rightarrow> [token_state k True r]) @
           (case bare_token s of None \<Rightarrow> [] | Some r \<Rightarrow> [token_state k False r])
      else [])"
  unfolding unexpected_token_regex_def m_seqs_Cons
  by (auto simp: m_seq_def m_seqs_Nil m_lookbehind_start_def m_opt_def m_group_def m_lit_def
      m_char_def m_backref_def advance_def quoted_token_def bare_token_def token_state_def
      split: list.splits)

lemma exec_from_NoneI:
  assumes "\<And>a b. s = a @ b \<Longrightarrow>
             r \<lparr>consumed = k @ a, remaining = b, captures = Map.empty\<rparr> = []"
  shows "exec_from r k s = None"
proof (rule ccontr)
  assume "exec_from r k s \<noteq> None"
  then obtain k' m where "exec_from r k s = Some (k', m)" by auto
  from exec_from_SomeD [OF this] assms show False by fastforce
qed

lemma exec_unexpected_token_regex_prefix:
  "exec unexpected_token_regex (lit ''Unexpected token '' @ s) =
     (case quoted_token s of
        Some r \<Rightarrow> Some (lit ''Unexpected token '', token_state (lit ''Unexpected token '') True r)
      | None \<Rightarrow>
          (case bare_token s of
             Some r \<Rightarrow> Some (lit ''Unexpected token '', token_state (lit ''Unexpected token '') False r)
           | None \<Rightarrow> None))"
proof -
  let ?P = "lit ''Unexpected token ''"
  let ?r = unexpected_token_regex
  have skip: "exec_from ?r [] (?P @ s) = exec_from ?r ([] @ ?P) s"
  proof (rule exec_from_skip)
    fix a b :: js_string
    assume "?P = a @ b" "b \<noteq> []"
    then have "length a < length ?P" by (metis length_append length_greater_0_conv less_add_same_cancel1)
    then have "a \<noteq> ?P" by auto
    then show "?r \<lparr>consumed = [] @ a, remaining = b @ s, captures = Map.empty\<rparr> = []"
      by (simp add: unexpected_token_regex_at)
  qed
  have later: "exec_from ?r (?P @ [c]) cs = None" for c cs
    by (rule exec_from_NoneI) (simp add: unexpected_token_regex_at)
  have "exec_from ?r ?P s =
     (case quoted_token s of
        Some r \<Rightarrow> Some (?P, token_state ?P True r)
      | None \<Rightarrow>
          (case bare_token s of
             Some r \<Rightarrow> Some (?P, token_state ?P False r)
           | None \<Rightarrow> None))"
    by (subst exec_from_first)
      (auto simp: first_match_def unexpected_token_regex_at later split: option.splits list.splits)
  with skip show ?thesis by (simp add: exec_def)
qed

lemma exec_unexpected_token_regex_other:
  assumes "strip (lit ''Unexpected token '') message = None"
  shows "exec unexpected_token_regex message = None"
  unfolding exec_def
proof (rule exec_from_NoneI)
  fix a b
  assume "message = a @ b"
  with assms have "a \<noteq> lit ''Unexpected token ''"
    by auto
  then show "unexpected_token_regex \<lparr>consumed = [] @ a, remaining = b, captures = Map.empty\<rparr> = []"
    by (simp add: unexpected_token_regex_at)
qed

lemma replace_unexpected_token_regex:
  "replace unexpected_token_regex f (lit ''Unexpected token '' @ s) =
     (case quoted_token s of
        Some r \<Rightarrow> lit ''Unexpected token '' @ f (token_state (lit ''Unexpected token '') True r) @ snd r
      | None \<Rightarrow>
          (case bare_token s of
             Some r \<Rightarrow> lit ''Unexpected token '' @ f (token_state (lit ''Unexpected token '') False r) @ snd r
           | None \<Rightarrow> lit ''Unexpected token '' @ s))"
  by (simp add: replace_def exec_unexpected_token_regex_prefix token_state_def split: option.splits)

lemma addCodePointToUnexpectedToken_eq:
  "addCodePointToUnexpectedToken message =
     (case unexpected_token message of
        None \<Rightarrow> message
      | Some (X, rest) \<Rightarrow>
          lit ''Unexpected token '' @ [0x22, X, 0x22] @ lit ''('' @ [0x5C] @ lit ''u{'' @
          toString16 (unat X) @ lit ''})'' @ rest)"
proof (cases "strip (lit ''Unexpected token '') message")
  case None
  then show ?thesis
    by (simp add: addCodePointToUnexpectedToken_def replace_def unexpected_token_def
        exec_unexpected_token_regex_other)
next
  case (Some s)
  then have message: "message = lit ''Unexpected token '' @ s" by (simp add: strip_Some_iff)
  have paren: "lit ''})'' = lit ''}'' @ lit '')''" by (simp add: lit_def)
  show ?thesis
    unfolding message addCodePointToUnexpectedToken_def replace_unexpected_token_regex
      unexpected_token_def strip_append paren
    by (auto simp: token_state_def getCodePoint_def split: option.splits)
qed

text \<open>
  The rendering, case by case: a token between single quotes, a bare token, and a message
  that does not start with \<open>Unexpected token\<close> and a space.
\<close>

lemma unexpected_token_rendering:
  "(\<not> is_line_terminator X \<longrightarrow>
      addCodePointToUnexpectedToken (lit ''Unexpected token '' @ [0x27, X, 0x27] @ rest) =
        lit ''Unexpected token '' @ [0x22, X, 0x22] @ lit ''('' @ [0x5C] @ lit ''u{'' @
        toString16 (unat X) @ lit ''})'' @ rest) \<and>
   (\<not> is_line_terminator X \<and> quoted_token (X # rest) = None \<longrightarrow>
      addCodePointToUnexpectedToken (lit ''Unexpected token '' @ X # rest) =
        lit ''Unexpected token '' @ [0x22, X, 0x22] @ lit ''('' @ [0x5C] @ lit ''u{'' @
        toString16 (unat X) @ lit ''})'' @ rest) \<and>
   (strip (lit ''Unexpected token '') message = None \<longrightarrow>
      addCodePointToUnexpectedToken message = message)"
  by (simp add: addCodePointToUnexpectedToken_eq unexpected_token_def quoted_token_def
      bare_token_def)

lemma unexpected_token_rendering_brace:
  "addCodePointToUnexpectedToken (lit ''Unexpected token } in JSON at position 8'') =
     lit ''Unexpected token '' @ [0x22] @ lit ''}'' @ [0x22] @ lit ''('' @ [0x5C] @
     lit ''u{7d}) in JSON at position 8''"
  by (simp add: addCodePointToUnexpectedToken_eq unexpected_token_def quoted_token_def
      bare_token_def is_line_terminator_def strip_def lit_def toString16.simps hex_digit_def)


section \<open>The claims\<close>

lemmas number_eval = Number_def decimal_value_def digit_value_def nearest_double_def
  to_double_def js_add_def excess_bits.simps string_length_def

lemmas token_eval = unexpected_token_def quoted_token_def bare_token_def
  is_line_terminator_def strip_def lit_def toString16.simps hex_digit_def



text \<open>
  Claim C2. Let the message end with \<open>in JSON at position <offset>\<close> and nothing after the
  digits. If the offset, read as a number, equals the length of the text, \<open>getErrorLocation\<close>
  asks \<open>indexToPosition\<close> for the position of \<open>length - 1\<close> and returns it with the column
  incremented by one. If the offset is less than the length, it returns what
  \<open>indexToPosition\<close> gives for the offset. In both cases a failure of \<open>indexToPosition\<close> is
  passed on. The statement holds for the empty text as well. By \<open>js_add_exact\<close> and
  \<open>Number_exact\<close> the arithmetic is that of the integers up to \<open>2 ^ 53\<close>.
\<close>

theorem getErrorLocation_offset:
  assumes "digits idx"
  shows "(Number (Some idx) = string_length text \<longrightarrow>
            getErrorLocation indexToPosition text (pre @ lit ''in JSON at position '' @ idx) =
              (case indexToPosition text (js_add (string_length text) (- 1)) of
                 Inl e \<Rightarrow> Inl e
               | Inr p \<Rightarrow> Inr (Some \<lparr>line = line p, column = js_add (column p) 1\<rparr>))) \<and>
         (\<forall>n. Number (Some idx) = Num n \<and> n < int (length text) \<longrightarrow>
            getErrorLocation indexToPosition text (pre @ lit ''in JSON at position '' @ idx) =
              (case indexToPosition text (Num n) of
                 Inl e \<Rightarrow> Inl e
               | Inr p \<Rightarrow> Inr (Some p)))"
  using assms
  by (auto simp: getErrorLocation_def exec_location_offset truthy_def string_length_def)

theorem getErrorLocation_offset_witness:
  "digits (lit ''5'') \<and> Number (Some (lit ''5'')) = string_length (lit ''[1, 2'') \<and>
   getErrorLocation (\<lambda>s i. Inr \<lparr>line = Num 1, column = js_add i 1\<rparr> :: unit thrown + position)
     (lit ''[1, 2'') (lit ''Unexpected end of JSON input '' @ lit ''in JSON at position '' @ lit ''5'') =
     Inr (Some \<lparr>line = Num 1, column = Num 6\<rparr>) \<and>
   digits (lit ''3'') \<and> Number (Some (lit ''3'')) = Num 3 \<and> 3 < int (length (lit ''[1,,2]'')) \<and>
   getErrorLocation (\<lambda>s i. Inr \<lparr>line = Num 1, column = js_add i 1\<rparr> :: unit thrown + position)
     (lit ''[1,,2]'') (lit ''Unexpected token , '' @ lit ''in JSON at position '' @ lit ''3'') =
     Inr (Some \<lparr>line = Num 1, column = Num 4\<rparr>)"
  using getErrorLocation_offset
      [of "lit ''5''" "lit ''[1, 2''" "\<lambda>s i. Inr \<lparr>line = Num 1, column = js_add i 1\<rparr>"
        "lit ''Unexpected end of JSON input ''"]
    getErrorLocation_offset
      [of "lit ''3''" "lit ''[1,,2]''" "\<lambda>s i. Inr \<lparr>line = Num 1, column = js_add i 1\<rparr>"
        "lit ''Unexpected token , ''"]
  by (simp add: digits_def is_digit_def lit_def number_eval)

text \<open>
  Claim C3. Let the message end with
  \<open>in JSON at position <offset> (line <line> column <column>)\<close>. Then \<open>getErrorLocation\<close>
  returns the line and the column written in the message, read as numbers, whatever the
  text, the offset and \<open>indexToPosition\<close> are: the position is not computed from the offset.
\<close>

theorem getErrorLocation_line_column:
  assumes "digits idx" "digits l" "digits c"
  shows "getErrorLocation indexToPosition text
           (pre @ lit ''in JSON at position '' @ idx @ lit '' (line '' @ l @
              lit '' column '' @ c @ lit '')'') =
         Inr (Some \<lparr>line = Number (Some l), column = Number (Some c)\<rparr>)"
  using assms
  by (simp add: getErrorLocation_def exec_location_line_column truthy_digits)

theorem getErrorLocation_line_column_witness:
  "digits (lit ''6'') \<and> digits (lit ''1'') \<and> digits (lit ''7'') \<and>
   getErrorLocation (\<lambda>s i. Inl (NonError ())) (lit ''[1, 2,]'')
     (lit ''Unexpected token ] '' @ lit ''in JSON at position '' @ lit ''6'' @ lit '' (line '' @
      lit ''1'' @ lit '' column '' @ lit ''7'' @ lit '')'') =
     Inr (Some \<lparr>line = Num 1, column = Num 7\<rparr>)"
  using getErrorLocation_line_column
      [of "lit ''6''" "lit ''1''" "lit ''7''" "\<lambda>s i. Inl (NonError ())" "lit ''[1, 2,]''"
        "lit ''Unexpected token ] ''"]
  by (simp add: digits_def is_digit_def lit_def number_eval)

text \<open>
  Claim C4, amended. For every \<open>JSONError\<close>, reading \<open>message\<close> gives the base message, then
  \<open>in <fileName>\<close> after a space if \<open>fileName\<close> is a string that is not empty, then the
  highlighted code frame between two line feeds and one line feed if \<open>codeFrame\<close> is a string
  that is not empty. An empty file name and an empty code frame are left out, as \<open>undefined\<close>
  ones are. The value is computed from the fields as they are at the time of the read, so
  a file name assigned after construction shows in the reads that follow (second
  conjunct). Where neither field is the empty string the reading is the composition of the
  specification (third conjunct); where one is, it is not, as the last theorem of this
  block shows.
\<close>

theorem get_message_composition:
  "get_message e =
     private_message e @
     (case fileName e of
        None \<Rightarrow> []
      | Some f \<Rightarrow> if f = [] then [] else lit '' in '' @ f) @
     (case codeFrame e of
        None \<Rightarrow> []
      | Some frame \<Rightarrow> if frame = [] then [] else [0x0A, 0x0A] @ frame @ [0x0A]) \<and>
   get_message (set_fileName file_name e) =
     private_message e @
     (case file_name of
        None \<Rightarrow> []
      | Some f \<Rightarrow> if f = [] then [] else lit '' in '' @ f) @
     (case codeFrame e of
        None \<Rightarrow> []
      | Some frame \<Rightarrow> if frame = [] then [] else [0x0A, 0x0A] @ frame @ [0x0A]) \<and>
   (fileName e \<noteq> Some [] \<and> codeFrame e \<noteq> Some [] \<longrightarrow> get_message e = spec_message e)"
  by (auto simp: get_message_def spec_message_def set_fileName_def truthy_def
      split: option.splits)

theorem get_message_composition_witness:
  "fileName (set_fileName (Some (lit ''config.json''))
      (new_JSONError (\<lambda>s p h. lit ''> 1 | [1, 2'') (lit ''Unexpected end of JSON input'')
         (Some (lit ''[1, 2'')) (Some \<lparr>line = Num 1, column = Num 6\<rparr>))) \<noteq> Some [] \<and>
   codeFrame (set_fileName (Some (lit ''config.json''))
      (new_JSONError (\<lambda>s p h. lit ''> 1 | [1, 2'') (lit ''Unexpected end of JSON input'')
         (Some (lit ''[1, 2'')) (Some \<lparr>line = Num 1, column = Num 6\<rparr>))) \<noteq> Some [] \<and>
   get_message (set_fileName (Some (lit ''config.json''))
      (new_JSONError (\<lambda>s p h. lit ''> 1 | [1, 2'') (lit ''Unexpected end of JSON input'')
         (Some (lit ''[1, 2'')) (Some \<lparr>line = Num 1, column = Num 6\<rparr>))) =
     lit ''Unexpected end of JSON input in config.json'' @ [0x0A, 0x0A] @ lit ''> 1 | [1, 2'' @ [0x0A] \<and>
   spec_message (set_fileName (Some (lit ''config.json''))
      (new_JSONError (\<lambda>s p h. lit ''> 1 | [1, 2'') (lit ''Unexpected end of JSON input'')
         (Some (lit ''[1, 2'')) (Some \<lparr>line = Num 1, column = Num 6\<rparr>))) =
     lit ''Unexpected end of JSON input in config.json'' @ [0x0A, 0x0A] @ lit ''> 1 | [1, 2'' @ [0x0A] \<and>
   get_message (set_fileName (Some [])
      (new_JSONError (\<lambda>s p h. []) (lit ''Unexpected end of JSON input'')
         (Some (lit ''[1, 2'')) (Some \<lparr>line = Num 1, column = Num 6\<rparr>))) =
     lit ''Unexpected end of JSON input''"
  using get_message_composition [of "set_fileName (Some (lit ''config.json''))
      (new_JSONError (\<lambda>s p h. lit ''> 1 | [1, 2'') (lit ''Unexpected end of JSON input'')
         (Some (lit ''[1, 2'')) (Some \<lparr>line = Num 1, column = Num 6\<rparr>))" None]
    get_message_composition [of "set_fileName (Some [])
      (new_JSONError (\<lambda>s p h. []) (lit ''Unexpected end of JSON input'')
         (Some (lit ''[1, 2'')) (Some \<lparr>line = Num 1, column = Num 6\<rparr>))" None]
  by (simp add: spec_message_def set_fileName_def new_JSONError_def generateCodeFrame_def
      truthy_def lit_def)

theorem get_message_empty_fileName_counterexample:
  "get_message (set_fileName (Some [])
      (new_JSONError (\<lambda>s p h. []) (lit ''Unexpected end of JSON input'') (Some (lit ''[1, 2'')) None)) =
     lit ''Unexpected end of JSON input'' \<and>
   spec_message (set_fileName (Some [])
      (new_JSONError (\<lambda>s p h. []) (lit ''Unexpected end of JSON input'') (Some (lit ''[1, 2'')) None)) =
     lit ''Unexpected end of JSON input in '' \<and>
   get_message
      (new_JSONError (\<lambda>s p h. []) (lit ''Unexpected end of JSON input'') (Some (lit ''[1, 2''))
         (Some \<lparr>line = Num 9, column = Num 1\<rparr>)) =
     lit ''Unexpected end of JSON input'' \<and>
   spec_message
      (new_JSONError (\<lambda>s p h. []) (lit ''Unexpected end of JSON input'') (Some (lit ''[1, 2''))
         (Some \<lparr>line = Num 9, column = Num 1\<rparr>)) =
     lit ''Unexpected end of JSON input'' @ [0x0A, 0x0A, 0x0A]"
  by (simp add: get_message_def spec_message_def set_fileName_def new_JSONError_def
      generateCodeFrame_def truthy_def lit_def)

text \<open>
  Claim C5. Let no suffix of the message be \<open>in JSON at position <offset>\<close> or
  \<open>in JSON at position <offset> (line <line> column <column>)\<close>. Then \<open>getErrorLocation\<close>
  returns \<open>undefined\<close> and, when the parser fails with an \<open>Error\<close> of that message,
  \<open>parseJson\<close> throws a \<open>JSONError\<close> with its message, with the file name, and with neither
  \<open>codeFrame\<close> nor \<open>rawCodeFrame\<close>: \<open>indexToPosition\<close> and \<open>codeFrameColumns\<close> have no part in
  the result.
\<close>

theorem parseJson_without_location:
  assumes "\<not> ends_with offset_text message" "\<not> ends_with line_column_text message"
  shows "getErrorLocation indexToPosition string message = Inr None \<and>
         (JSON_parse string reviver = (calls, Inl (ErrorInstance x message)) \<longrightarrow>
          parseJson JSON_parse indexToPosition codeFrameColumns string reviver file_name =
            (calls, Inl (Thrown_JSONError
               \<lparr>name = lit ''JSONError'', fileName = file_name, codeFrame = None,
                rawCodeFrame = None,
                private_message =
                  (if string = [] then message @ lit '' while parsing empty string''
                   else addCodePointToUnexpectedToken message)\<rparr>)))"
  using assms
  by (simp add: getErrorLocation_def exec_location_None parseJson_def new_JSONError_def
      set_fileName_def truthy_def)

theorem parseJson_without_location_witness:
  "\<not> ends_with offset_text (lit ''Unexpected end of JSON input'') \<and>
   \<not> ends_with line_column_text (lit ''Unexpected end of JSON input'') \<and>
   getErrorLocation (\<lambda>s i. Inl (NonError ())) (lit ''[1, 2'') (lit ''Unexpected end of JSON input'') =
     Inr None \<and>
   parseJson (\<lambda>s r. ([], Inl (ErrorInstance () (lit ''Unexpected end of JSON input''))))
     (\<lambda>s i. Inl (NonError ())) (\<lambda>s p h. s) (lit ''[1, 2'') () None =
     ([], Inl (Thrown_JSONError
        \<lparr>name = lit ''JSONError'', fileName = None, codeFrame = None, rawCodeFrame = None,
         private_message = lit ''Unexpected end of JSON input''\<rparr>))"
  using parseJson_without_location
      [of "lit ''Unexpected end of JSON input''" "\<lambda>s i. Inl (NonError ())" "lit ''[1, 2''"
        "\<lambda>s r. ([], Inl (ErrorInstance () (lit ''Unexpected end of JSON input'')))" "()" "[]" "()"
        "\<lambda>s p h. s" None]
  by (simp add: offset_text_def line_column_text_def strip_def lit_def
      addCodePointToUnexpectedToken_eq unexpected_token_def)

text \<open>
  Claim C6. A message that starts with \<open>Unexpected token\<close>, a space and a token is to be
  rewritten so that the token is followed by its code point, and every other message is
  to be returned unchanged. By \<open>addCodePointToUnexpectedToken_eq\<close> the function does so
  when the token is a UTF-16 code unit other than a line terminator. The message that V8
  gives for a raw line feed in a string literal, \<open>Unexpected token <LF> in JSON at position 1\<close>,
  has a line feed for its token: it is returned as it is, without \<open>"<LF>"(\u{a})\<close>.
\<close>

theorem addCodePointToUnexpectedToken_line_feed:
  "addCodePointToUnexpectedToken
     (lit ''Unexpected token '' @ [0x0A] @ lit '' in JSON at position 1'') =
     lit ''Unexpected token '' @ [0x0A] @ lit '' in JSON at position 1'' \<and>
   addCodePointToUnexpectedToken
     (lit ''Unexpected token '' @ [0x0A] @ lit '' in JSON at position 1'') \<noteq>
     lit ''Unexpected token '' @ [0x22, 0x0A, 0x22] @ lit ''('' @ [0x5C] @ lit ''u{a})'' @
     lit '' in JSON at position 1''"
  by (simp add: addCodePointToUnexpectedToken_eq token_eval)

text \<open>
  Claim C7. For the empty text, when the parser fails with an \<open>Error\<close>, \<open>parseJson\<close> throws a
  \<open>JSONError\<close> whose message is the message of the failure followed by
  \<open>while parsing empty string\<close>, with the file name and with no code frame. Neither
  \<open>indexToPosition\<close> nor a location written in the message has a part in the result: no
  location is looked up.
\<close>

theorem parseJson_empty_string:
  assumes "JSON_parse [] reviver = (calls, Inl (ErrorInstance x message))"
  shows "parseJson JSON_parse indexToPosition codeFrameColumns [] reviver file_name =
           (calls, Inl (Thrown_JSONError
               \<lparr>name = lit ''JSONError'', fileName = file_name, codeFrame = None,
                rawCodeFrame = None,
                private_message = message @ lit '' while parsing empty string''\<rparr>))"
  using assms
  by (simp add: parseJson_def new_JSONError_def set_fileName_def truthy_def)

theorem parseJson_empty_string_witness:
  "parseJson (\<lambda>s r. ([], Inl (ErrorInstance () (lit ''Unexpected end in JSON at position 0''))))
     (\<lambda>s i. Inl (NonError ())) (\<lambda>s p h. s) [] () (Some (lit ''config.json'')) =
     ([], Inl (Thrown_JSONError
        \<lparr>name = lit ''JSONError'', fileName = Some (lit ''config.json''), codeFrame = None,
         rawCodeFrame = None,
         private_message = lit ''Unexpected end in JSON at position 0 while parsing empty string''\<rparr>))"
  using parseJson_empty_string
      [of "\<lambda>s r. ([], Inl (ErrorInstance () (lit ''Unexpected end in JSON at position 0'')))" "()" "[]"
        "()" "lit ''Unexpected end in JSON at position 0''" "\<lambda>s i. Inl (NonError ())" "\<lambda>s p h. s"
        "Some (lit ''config.json'')"]
  by (simp add: lit_def)

text \<open>
  Claim C8. When the parser returns a value for the text and the reviver, \<open>parseJson\<close>
  returns that value, the calls of the reviver are those the parser made, and nothing is
  thrown: no \<open>JSONError\<close> is made.
\<close>

theorem parseJson_success:
  assumes "JSON_parse string reviver = (calls, Inr v)"
  shows "parseJson JSON_parse indexToPosition codeFrameColumns string reviver file_name =
           (calls, Inr v)"
  using assms by (simp add: parseJson_def)

theorem parseJson_success_witness:
  "parseJson (\<lambda>s r. ([(lit '''', 12::nat)], Inr (12::nat)))
     (\<lambda>s i. Inl (NonError ())) (\<lambda>s p h. s) (lit ''12'') () None =
   ([(lit '''', 12)], Inr 12)"
  using parseJson_success
      [of "\<lambda>s r. ([(lit '''', 12::nat)], Inr (12::nat))" "lit ''12''" "()" "[(lit '''', 12)]" 12
        "\<lambda>s i. Inl (NonError ())" "\<lambda>s p h. s" None]
  by simp

text \<open>
  Claim C9. In a \<open>JSONError\<close> as the constructor makes it, \<open>codeFrame\<close> is defined exactly when
  \<open>rawCodeFrame\<close> is, and that is exactly when the constructor was given a source string
  that is not empty and a location. No assignment to \<open>message\<close> or to \<open>fileName\<close>, in any
  number and order, changes either field.
\<close>

theorem JSONError_code_frames:
  "(codeFrame (new_JSONError codeFrameColumns message jsonString location) \<noteq> None \<longleftrightarrow>
    rawCodeFrame (new_JSONError codeFrameColumns message jsonString location) \<noteq> None) \<and>
   (codeFrame (new_JSONError codeFrameColumns message jsonString location) \<noteq> None \<longleftrightarrow>
    (\<exists>s. jsonString = Some s \<and> s \<noteq> []) \<and> location \<noteq> None) \<and>
   codeFrame (fold apply_op ops (new_JSONError codeFrameColumns message jsonString location)) =
     codeFrame (new_JSONError codeFrameColumns message jsonString location) \<and>
   rawCodeFrame (fold apply_op ops (new_JSONError codeFrameColumns message jsonString location)) =
     rawCodeFrame (new_JSONError codeFrameColumns message jsonString location)"
proof -
  have "codeFrame (fold apply_op ops e) = codeFrame e \<and>
        rawCodeFrame (fold apply_op ops e) = rawCodeFrame e" for e
  proof (induction ops arbitrary: e)
    case Nil
    then show ?case by simp
  next
    case (Cons a ops)
    then show ?case by (cases a) (simp_all add: set_message_def set_fileName_def)
  qed
  then show ?thesis
    by (auto simp: new_JSONError_def truthy_def Let_def split: option.splits)
qed

theorem JSONError_code_frames_witness:
  "codeFrame (fold apply_op [Assign_fileName (Some (lit ''a.json'')), Assign_message (lit ''changed'')]
     (new_JSONError (\<lambda>s p h. if h then lit ''frame in colour'' else lit ''frame'')
        (lit ''Unexpected token'') (Some (lit ''[1,,2]'')) (Some \<lparr>line = Num 1, column = Num 4\<rparr>))) =
     Some (lit ''frame in colour'') \<and>
   rawCodeFrame (fold apply_op [Assign_fileName (Some (lit ''a.json'')), Assign_message (lit ''changed'')]
     (new_JSONError (\<lambda>s p h. if h then lit ''frame in colour'' else lit ''frame'')
        (lit ''Unexpected token'') (Some (lit ''[1,,2]'')) (Some \<lparr>line = Num 1, column = Num 4\<rparr>))) =
     Some (lit ''frame'')"
  using JSONError_code_frames
      [of "\<lambda>s p h. if h then lit ''frame in colour'' else lit ''frame''"
        "lit ''Unexpected token''" "Some (lit ''[1,,2]'')" "Some \<lparr>line = Num 1, column = Num 4\<rparr>"
        "[Assign_fileName (Some (lit ''a.json'')), Assign_message (lit ''changed'')]"]
  by (simp add: new_JSONError_def generateCodeFrame_def truthy_def lit_def)

text \<open>
  Claim C10. After \<open>Unexpected token\<close> and a space at the start of the message, a single
  character \<open>X\<close>, bare or between two single quotes, is to be rendered as \<open>X\<close> between double
  quotes followed by \<open>(\u{h})\<close>, \<open>h\<close> the code point of \<open>X\<close> in hexadecimal, in lower case and
  without padding, the single quotes stripped. By \<open>unexpected_token_rendering\<close> the function
  does so when \<open>X\<close> is a UTF-16 code unit other than a line terminator. In the message that V8
  gives for the text that is the one character U+2028,
  \<open>Unexpected token '<U+2028>', "<U+2028>" is not valid JSON\<close>, the token is a line separator
  between single quotes: the function renders the opening quote as the token,
  \<open>"'"(\u{27})\<close>, and leaves the line separator and the closing quote after it.
\<close>

theorem addCodePointToUnexpectedToken_quoted_line_separator:
  "addCodePointToUnexpectedToken
     (lit ''Unexpected token '' @ [0x27, 0x2028, 0x27] @ lit '', '' @ [0x22, 0x2028, 0x22] @
      lit '' is not valid JSON'') =
     lit ''Unexpected token '' @ [0x22, 0x27, 0x22] @ lit ''('' @ [0x5C] @ lit ''u{27})'' @
     [0x2028, 0x27] @ lit '', '' @ [0x22, 0x2028, 0x22] @ lit '' is not valid JSON'' \<and>
   addCodePointToUnexpectedToken
     (lit ''Unexpected token '' @ [0x27, 0x2028, 0x27] @ lit '', '' @ [0x22, 0x2028, 0x22] @
      lit '' is not valid JSON'') \<noteq>
     lit ''Unexpected token '' @ [0x22, 0x2028, 0x22] @ lit ''('' @ [0x5C] @ lit ''u{2028})'' @
     lit '', '' @ [0x22, 0x2028, 0x22] @ lit '' is not valid JSON''"
  by (simp add: addCodePointToUnexpectedToken_eq token_eval)

end
